theory Spec2Isabelle
  imports Main "HOL-Library.AList"
begin

section \<open>Python values as \<^verbatim>\<open>json.load\<close> yields them\<close>

text \<open>
  A Python \<^verbatim>\<open>str\<close> is a sequence of Unicode code points, so it is modelled as a list of
  natural numbers; \<open>py\<close> turns an ASCII literal of the source into such a list.
\<close>

type_synonym pystr = "nat list"

definition py :: "string \<Rightarrow> pystr" where
  "py s = map of_char s"

text \<open>
  A JSON number with a fraction or exponent is loaded as a float; the program never
  computes with one, it only tests truthiness.
\<close>

datatype pyfloat = Finite int int | PosInf | NegInf | NaN

text \<open>
  A \<^verbatim>\<open>dict\<close> keeps its keys in insertion order, so it is an association list; lookup
  takes the first binding and assignment replaces it in place or appends a new key,
  as \<open>AList.update\<close> does. The values are trees: \<^verbatim>\<open>json.load\<close> never shares an
  object between two places.
\<close>

datatype pyval =
    PNone
  | PBool bool
  | PInt int
  | PFloat pyfloat
  | PStr pystr
  | PList "pyval list"
  | PDict "(pystr \<times> pyval) list"

datatype py_error = KeyError | TypeError | IndexError | AttributeError

text \<open>Truthiness, as \<^verbatim>\<open>if notebook\<close> tests it.\<close>

fun truthy :: "pyval \<Rightarrow> bool" where
  "truthy PNone = False"
| "truthy (PBool b) = b"
| "truthy (PInt n) = (n \<noteq> 0)"
| "truthy (PFloat f) = (case f of Finite m e \<Rightarrow> m \<noteq> 0 | _ \<Rightarrow> True)"
| "truthy (PStr s) = (s \<noteq> [])"
| "truthy (PList xs) = (xs \<noteq> [])"
| "truthy (PDict kvs) = (kvs \<noteq> [])"

text \<open>
  \<^verbatim>\<open>obj[key]\<close> with a string key: a dict looks the key up and raises \<^verbatim>\<open>KeyError\<close> when it is
  missing; a list or a string wants an integer index and every other value is not
  subscriptable, both \<^verbatim>\<open>TypeError\<close>.
\<close>

fun getitem :: "pyval \<Rightarrow> pystr \<Rightarrow> py_error + pyval" where
  "getitem (PDict kvs) k = (case map_of kvs k of None \<Rightarrow> Inl KeyError | Some v \<Rightarrow> Inr v)"
| "getitem _ k = Inl TypeError"

text \<open>
  \<^verbatim>\<open>obj[key] = v\<close> on a dict; the program only assigns into a value it has just
  subscripted with a string key successfully, which is a dict.
\<close>

fun setitem :: "pyval \<Rightarrow> pystr \<Rightarrow> pyval \<Rightarrow> pyval" where
  "setitem (PDict kvs) k v = PDict (AList.update k v kvs)"
| "setitem x k v = x"

text \<open>
  Iteration (\<^verbatim>\<open>for cell in cells\<close>, \<^verbatim>\<open>enumerate\<close>, \<^verbatim>\<open>str.join\<close>): a list yields its
  elements, a dict its keys, a string its characters; nothing else is iterable.
\<close>

fun py_iter :: "pyval \<Rightarrow> py_error + pyval list" where
  "py_iter (PList xs) = Inr xs"
| "py_iter (PDict kvs) = Inr (map (\<lambda>kv. PStr (fst kv)) kvs)"
| "py_iter (PStr s) = Inr (map (\<lambda>c. PStr [c]) s)"
| "py_iter _ = Inl TypeError"

section \<open>Loading and extracting\<close>

text \<open>
  \<^verbatim>\<open>load_notebook\<close> returns the decoded document, or \<^verbatim>\<open>None\<close> when the file is missing
  or is not JSON. The file system is a parameter: the outcome of opening and decoding.
  These are the outcomes the function handles; any other exception of opening or reading
  the file leaves it and ends the run before a cell is read.
\<close>

datatype load_outcome = FileNotFoundError | JSONDecodeError | Loaded pyval

fun load_notebook :: "load_outcome \<Rightarrow> pyval" where
  "load_notebook (Loaded v) = v"
| "load_notebook FileNotFoundError = PNone"
| "load_notebook JSONDecodeError = PNone"

definition cells_key :: pystr where
  "cells_key = py ''cells''"

definition cell_type_key :: pystr where
  "cell_type_key = py ''cell_type''"

definition source_key :: pystr where
  "source_key = py ''source''"

text \<open>\<^verbatim>\<open>return notebook['cells'] if notebook else []\<close>\<close>

definition extract_cells :: "pyval \<Rightarrow> py_error + pyval" where
  "extract_cells notebook =
     (if truthy notebook then getitem notebook cells_key else Inr (PList []))"

section \<open>Strings\<close>

text \<open>
  \<^verbatim>\<open>str.splitlines(keepends=True)\<close>: the line boundaries of a \<^verbatim>\<open>str\<close> are
  LF, VT, FF, CR, FS, GS, RS, NEL, U+2028 and U+2029, and CR LF counts as one.
  Each fragment keeps its line break; a last line without one is a fragment too,
  and the empty string has no fragment.
\<close>

definition is_linebreak :: "nat \<Rightarrow> bool" where
  "is_linebreak c = (c \<in> set [10, 11, 12, 13, 28, 29, 30, 133, 8232, 8233])"

fun splitlines_from :: "pystr \<Rightarrow> pystr \<Rightarrow> pystr list" where
  "splitlines_from line [] = (if line = [] then [] else [line])"
| "splitlines_from line (c # cs) =
     (if c = 13 then
        (case cs of
           [] \<Rightarrow> [line @ [c]]
         | d # ds \<Rightarrow>
             if d = 10 then (line @ [c, d]) # splitlines_from [] ds
             else (line @ [c]) # splitlines_from [] cs)
      else if is_linebreak c then (line @ [c]) # splitlines_from [] cs
      else splitlines_from (line @ [c]) cs)"

definition splitlines_keepends :: "pystr \<Rightarrow> pystr list" where
  "splitlines_keepends s = splitlines_from [] s"

text \<open>
  \<^verbatim>\<open>str.strip()\<close> removes the leading and the trailing characters for which
  \<^verbatim>\<open>str.isspace\<close> holds.
\<close>

definition isspace :: "nat \<Rightarrow> bool" where
  "isspace c = (c \<in> set [9, 10, 11, 12, 13, 28, 29, 30, 31, 32, 133, 160, 5760,
     8192, 8193, 8194, 8195, 8196, 8197, 8198, 8199, 8200, 8201, 8202,
     8232, 8233, 8239, 8287, 12288])"

definition strip :: "pystr \<Rightarrow> pystr" where
  "strip s = rev (dropWhile isspace (rev (dropWhile isspace s)))"

text \<open>\<^verbatim>\<open>''.join(x)\<close>: \<open>x\<close> must be iterable and every item a \<^verbatim>\<open>str\<close>.\<close>

fun join_items :: "pyval list \<Rightarrow> py_error + pystr" where
  "join_items [] = Inr []"
| "join_items (PStr s # rest) =
     (case join_items rest of Inl e \<Rightarrow> Inl e | Inr t \<Rightarrow> Inr (s @ t))"
| "join_items (_ # rest) = Inl TypeError"

definition join_empty :: "pyval \<Rightarrow> py_error + pystr" where
  "join_empty x = (case py_iter x of Inl e \<Rightarrow> Inl e | Inr items \<Rightarrow> join_items items)"

text \<open>What an f-string writes for a bool, an int and an optional int.\<close>

definition str_bool :: "bool \<Rightarrow> pystr" where
  "str_bool b = (if b then py ''True'' else py ''False'')"

function str_nat :: "nat \<Rightarrow> pystr" where
  "str_nat n = (if n < 10 then [48 + n] else str_nat (n div 10) @ [48 + n mod 10])"
  by pat_completeness auto
termination
  by (relation "measure (\<lambda>n. n)") auto

definition str_int :: "int \<Rightarrow> pystr" where
  "str_int i = (if i < 0 then 45 # str_nat (nat (- i)) else str_nat (nat i))"

definition str_opt_int :: "int option \<Rightarrow> pystr" where
  "str_opt_int x = (case x of None \<Rightarrow> py ''None'' | Some i \<Rightarrow> str_int i)"

section \<open>The generation client\<close>

text \<open>
  The remote completion service, \<^verbatim>\<open>openai.completions.create\<close>, is a parameter. A call
  receives the prompt (the model name, the token limit, the temperature, \<^verbatim>\<open>n=1\<close> and
  \<^verbatim>\<open>stop=None\<close> are the same in every call). It either raises an exception (no
  credential, no connection, an error answer of the service) or returns the client's
  \<^verbatim>\<open>Completion\<close> object, whose attribute \<^verbatim>\<open>choices\<close> is the list of the completions. The
  service may answer differently from call to call, so it carries a state of its own.
\<close>

datatype choice = Choice (text_of: pystr)

datatype completion = Completion (choices: "choice list")

datatype remote_outcome = Raises | Returns completion

type_synonym 's remote = "'s \<Rightarrow> pystr \<Rightarrow> remote_outcome \<times> 's"

text \<open>
  \<^verbatim>\<open>'choices' in completion\<close>: the \<^verbatim>\<open>Completion\<close> object is not a dict and defines no
  membership test of its own, so \<^verbatim>\<open>in\<close> iterates over it; the iteration yields the
  fields as (name, value) pairs, and a string equals none of them. The test is false
  for every completion, whatever its choices.
\<close>

definition str_in_completion :: "pystr \<Rightarrow> completion \<Rightarrow> bool" where
  "str_in_completion key completion = False"

definition nl :: pystr where
  "nl = [10]"

definition build_prompt ::
  "pystr \<Rightarrow> pystr \<Rightarrow> pystr \<Rightarrow> pystr \<Rightarrow> bool \<Rightarrow> bool \<Rightarrow> pystr \<Rightarrow> int option \<Rightarrow> pystr" where
  "build_prompt message role_str language context preserve_structure
       include_documentation target_audience length_constraint =
     nl @ py ''    You are a helpful assistant that generates variations of messages while keeping their meaning and functionality the same. ''
     @ nl @ py ''    Please vary the following '' @ role_str
     @ py '' message while preserving its core elements, functionality, and including necessary documentation strings:''
     @ nl @ py ''    '' @ message
     @ nl @ py ''    ''
     @ nl @ py ''    Context: '' @ context
     @ nl @ py ''    Programming Language: '' @ language
     @ nl @ py ''    Preserve Structure: '' @ str_bool preserve_structure
     @ nl @ py ''    Target Audience: '' @ target_audience
     @ nl @ py ''    Length Constraint: '' @ str_opt_int length_constraint
     @ nl @ py ''    Include Documentation: '' @ str_bool include_documentation
     @ nl @ py ''    ''"

text \<open>
  The body of the \<^verbatim>\<open>try\<close> returns the stripped text of the first choice when
  \<^verbatim>\<open>'choices' in completion\<close> holds and the list is not empty (the second test is only
  evaluated after the first has held), and the message otherwise.
  The handler is \<^verbatim>\<open>except openai.Error\<close>. The module \<^verbatim>\<open>openai\<close> has no attribute \<^verbatim>\<open>Error\<close>
  (its exceptions derive from \<^verbatim>\<open>openai.OpenAIError\<close>), so when the call raises, whatever
  the exception, evaluating the clause raises \<^verbatim>\<open>AttributeError\<close>, and that exception leaves
  the function: nothing is returned.
\<close>

definition generate_variation_with_function_call ::
  "'s remote \<Rightarrow> 's \<Rightarrow> pystr \<Rightarrow> pystr \<Rightarrow> pystr \<Rightarrow> pystr \<Rightarrow> bool \<Rightarrow> bool \<Rightarrow> pystr \<Rightarrow> int option
     \<Rightarrow> (py_error + pystr) \<times> 's" where
  "generate_variation_with_function_call remote s message role_str language context
       preserve_structure include_documentation target_audience length_constraint =
     (let prompt = build_prompt message role_str language context preserve_structure
                     include_documentation target_audience length_constraint
      in case remote s prompt of
           (Raises, s') \<Rightarrow> (Inl AttributeError, s')
         | (Returns completion, s') \<Rightarrow>
             if str_in_completion (py ''choices'') completion
                \<and> 0 < length (choices completion)
             then (Inr (strip (text_of (choices completion ! 0))), s')
             else (Inr message, s'))"

section \<open>Processing the cells\<close>

record varied =
  role :: pyval
  original :: pystr
  variation :: pystr

definition recognized_roles :: "pystr list" where
  "recognized_roles = map py [''code'', ''markdown'', ''system'', ''tools'', ''user'',
     ''assistant'', ''tool_use'', ''tool_output'']"

text \<open>
  \<^verbatim>\<open>role in ['code', ...]\<close> compares with \<^verbatim>\<open>==\<close>; only a \<^verbatim>\<open>str\<close> equals a \<^verbatim>\<open>str\<close>.
\<close>

definition recognized :: "pyval \<Rightarrow> bool" where
  "recognized r = (r \<in> set (map PStr recognized_roles))"

text \<open>\<^verbatim>\<open>''.join(cell['source'])\<close>\<close>

definition cell_source :: "pyval \<Rightarrow> py_error + pystr" where
  "cell_source cell =
     (case getitem cell source_key of Inl e \<Rightarrow> Inl e | Inr src \<Rightarrow> join_empty src)"

text \<open>
  One turn of the loop of \<^verbatim>\<open>process_cells_with_function_call\<close>. The role that reaches
  the client is a recognized one, hence a string, and is written into the prompt as it is.
\<close>

definition process_cell :: "'s remote \<Rightarrow> 's \<Rightarrow> pyval \<Rightarrow> (py_error + varied) \<times> 's" where
  "process_cell remote s cell =
     (case getitem cell cell_type_key of
        Inl e \<Rightarrow> (Inl e, s)
      | Inr r \<Rightarrow>
          (case cell_source cell of
             Inl e \<Rightarrow> (Inl e, s)
           | Inr source \<Rightarrow>
               (case r of
                  PStr role_str \<Rightarrow>
                    if role_str \<in> set recognized_roles then
                      (case generate_variation_with_function_call remote s source role_str
                              (py ''python'') (py ''This is part of a Jupyter notebook.'')
                              True True (py ''general'') (Some 150) of
                         (Inl e, s') \<Rightarrow> (Inl e, s')
                       | (Inr v, s') \<Rightarrow>
                           (Inr \<lparr>role = r, original = source, variation = v\<rparr>, s'))
                    else (Inr \<lparr>role = r, original = source, variation = source\<rparr>, s)
                | _ \<Rightarrow> (Inr \<lparr>role = r, original = source, variation = source\<rparr>, s))))"

fun process_loop ::
  "'s remote \<Rightarrow> varied list \<Rightarrow> 's \<Rightarrow> pyval list \<Rightarrow> (py_error + varied list) \<times> 's" where
  "process_loop remote varied_cells s [] = (Inr varied_cells, s)"
| "process_loop remote varied_cells s (cell # rest) =
     (case process_cell remote s cell of
        (Inl e, s') \<Rightarrow> (Inl e, s')
      | (Inr v, s') \<Rightarrow> process_loop remote (varied_cells @ [v]) s' rest)"

definition process_cells_with_function_call ::
  "'s remote \<Rightarrow> 's \<Rightarrow> pyval \<Rightarrow> (py_error + varied list) \<times> 's" where
  "process_cells_with_function_call remote s cells =
     (case py_iter cells of
        Inl e \<Rightarrow> (Inl e, s)
      | Inr items \<Rightarrow> process_loop remote [] s items)"

section \<open>Rebuilding and saving\<close>

text \<open>
  The loop of \<^verbatim>\<open>save_variations\<close> assigns into the cells of the notebook it iterates.
  \<open>rebuild_loop\<close> returns the cells as they are when the loop ends or raises, and the
  exception if there is one. \<^verbatim>\<open>variations[i]\<close> raises \<^verbatim>\<open>IndexError\<close> when \<open>i\<close> is not
  below the length.
\<close>

fun rebuild_loop :: "varied list \<Rightarrow> nat \<Rightarrow> pyval list \<Rightarrow> pyval list \<times> py_error option" where
  "rebuild_loop variations i [] = ([], None)"
| "rebuild_loop variations i (cell # rest) =
     (case getitem cell cell_type_key of
        Inl e \<Rightarrow> (cell # rest, Some e)
      | Inr cell_type \<Rightarrow>
          if recognized cell_type then
            (if i < length variations then
               (case rebuild_loop variations (Suc i) rest of
                  (rest', err) \<Rightarrow>
                    (setitem cell source_key
                       (PList (map PStr (splitlines_keepends (variation (variations ! i)))))
                     # rest', err))
             else (cell # rest, Some IndexError))
          else
            (case rebuild_loop variations (Suc i) rest of
               (rest', err) \<Rightarrow> (cell # rest', err)))"

text \<open>
  The outcome of \<^verbatim>\<open>save_variations\<close>: the notebook object as the call leaves it, what
  was written to the output file if anything, and the exception that escapes if any.
  Whether the output file can be opened and written is the parameter \<open>fs_ok\<close>; the
  \<^verbatim>\<open>IOError\<close> of a failed write is caught and reported, it does not escape.
  Only the items of a list are cells that can be assigned into: the items of a dict or
  of a string are strings, on which \<^verbatim>\<open>cell['cell_type']\<close> raises.
\<close>

record save_result =
  notebook_after :: pyval
  written :: "pyval option"
  raised :: "py_error option"

definition save_variations :: "varied list \<Rightarrow> bool \<Rightarrow> pyval \<Rightarrow> save_result" where
  "save_variations variations fs_ok original_notebook =
     (case getitem original_notebook cells_key of
        Inl e \<Rightarrow> \<lparr>notebook_after = original_notebook, written = None, raised = Some e\<rparr>
      | Inr cells \<Rightarrow>
          (case py_iter cells of
             Inl e \<Rightarrow> \<lparr>notebook_after = original_notebook, written = None, raised = Some e\<rparr>
           | Inr items \<Rightarrow>
               (case rebuild_loop variations 0 items of
                  (items', err) \<Rightarrow>
                    (let nb = (case cells of
                                 PList _ \<Rightarrow> setitem original_notebook cells_key (PList items')
                               | _ \<Rightarrow> original_notebook)
                     in case err of
                          Some e \<Rightarrow> \<lparr>notebook_after = nb, written = None, raised = Some e\<rparr>
                        | None \<Rightarrow>
                            \<lparr>notebook_after = nb,
                             written = (if fs_ok then Some nb else None),
                             raised = None\<rparr>))))"

section \<open>The whole run\<close>

definition main_with_function_call ::
  "'s remote \<Rightarrow> 's \<Rightarrow> load_outcome \<Rightarrow> bool \<Rightarrow> save_result \<times> 's" where
  "main_with_function_call remote s input fs_ok =
     (let notebook = load_notebook input
      in case extract_cells notebook of
           Inl e \<Rightarrow> (\<lparr>notebook_after = notebook, written = None, raised = Some e\<rparr>, s)
         | Inr cells \<Rightarrow>
             (case process_cells_with_function_call remote s cells of
                (Inl e, s') \<Rightarrow>
                  (\<lparr>notebook_after = notebook, written = None, raised = Some e\<rparr>, s')
              | (Inr variations, s') \<Rightarrow> (save_variations variations fs_ok notebook, s')))"

section \<open>Well-formed input and auxiliary notions\<close>

text \<open>
  A block, as the notebook format has it: a dict with a \<^verbatim>\<open>cell_type\<close> entry and a
  \<^verbatim>\<open>source\<close> entry that is a list of strings.
\<close>

fun is_str :: "pyval \<Rightarrow> bool" where
  "is_str (PStr s) = True"
| "is_str _ = False"

fun is_str_list :: "pyval \<Rightarrow> bool" where
  "is_str_list (PList frags) = list_all is_str frags"
| "is_str_list _ = False"

fun is_block :: "pyval \<Rightarrow> bool" where
  "is_block (PDict kvs) =
     (case map_of kvs cell_type_key of
        None \<Rightarrow> False
      | Some r \<Rightarrow>
          (case map_of kvs source_key of
             None \<Rightarrow> False
           | Some src \<Rightarrow> is_str_list src))"
| "is_block _ = False"

text \<open>
  The prompt that \<^verbatim>\<open>process_cells_with_function_call\<close> sends for a cell, with the
  fixed arguments of its call.
\<close>

definition cell_prompt :: "pystr \<Rightarrow> pystr \<Rightarrow> pystr" where
  "cell_prompt source role_str =
     build_prompt source role_str (py ''python'') (py ''This is part of a Jupyter notebook.'')
       True True (py ''general'') (Some 150)"

text \<open>
  Concrete inputs for the examples: a service whose second call raises and whose other
  calls return one completion, a service whose every call raises, and cells.
\<close>

definition failing_second :: "nat remote" where
  "failing_second n p =
     (if n = 1 then (Raises, Suc n)
      else (Returns (Completion [Choice (py ''print(2)  '')]), Suc n))"

definition always_raises :: "nat remote" where
  "always_raises n p = (Raises, Suc n)"

definition mk_cell :: "string \<Rightarrow> string list \<Rightarrow> pyval" where
  "mk_cell t frags =
     PDict [(cell_type_key, PStr (py t)), (source_key, PList (map (\<lambda>f. PStr (py f)) frags))]"

text \<open>
  The test of \<^verbatim>\<open>save_variations\<close> on a cell: its \<^verbatim>\<open>cell_type\<close> can be read and is one of
  the recognized roles.
\<close>

definition recognized_cell :: "pyval \<Rightarrow> bool" where
  "recognized_cell cell =
     (case getitem cell cell_type_key of Inl e \<Rightarrow> False | Inr r \<Rightarrow> recognized r)"

text \<open>
  The cell is a dict with a \<^verbatim>\<open>cell_type\<close> entry.
\<close>

definition has_cell_type :: "pyval \<Rightarrow> bool" where
  "has_cell_type cell = (case getitem cell cell_type_key of Inl e \<Rightarrow> False | Inr r \<Rightarrow> True)"

text \<open>
  A dict without one of its keys, every other entry in place; any other value as it is.
  Two values that agree without the field \<open>k\<close> differ at most in that field.
\<close>

definition without_field :: "pystr \<Rightarrow> pyval \<Rightarrow> pyval" where
  "without_field k x = (case x of PDict kvs \<Rightarrow> PDict (AList.delete k kvs) | _ \<Rightarrow> x)"

text \<open>
  More concrete inputs for the examples: a variation record and a notebook.
\<close>

definition mk_varied :: "string \<Rightarrow> string \<Rightarrow> string \<Rightarrow> varied" where
  "mk_varied t orig var = \<lparr>role = PStr (py t), original = py orig, variation = py var\<rparr>"

definition mk_notebook :: "pyval list \<Rightarrow> pyval" where
  "mk_notebook cells = PDict [(cells_key, PList cells), (py ''nbformat'', PInt 4)]"

text \<open>
  A fragment is one line: it is not empty and has no line break before its end, where
  the end may be a single line break character or CR LF.
\<close>

definition is_line :: "pystr \<Rightarrow> bool" where
  "is_line f =
     (f \<noteq> []
      \<and> (list_all (\<lambda>c. \<not> is_linebreak c) (butlast f)
         \<or> (drop (length f - 2) f = [13, 10]
            \<and> list_all (\<lambda>c. \<not> is_linebreak c) (take (length f - 2) f))))"

section \<open>Extraction\<close>

text \<open>
  C10: extract is total only when a present document has a \<^verbatim>\<open>cells\<close> field. An absent
  (falsy) document gives the empty sequence; a present document (a non-empty dict)
  without the field raises \<^verbatim>\<open>KeyError\<close>; one with the field gives its value verbatim.
\<close>

theorem extract_cells_total_iff_cells:
  "(\<not> truthy d \<longrightarrow> extract_cells d = Inr (PList []))
   \<and> (\<forall>kvs. d = PDict kvs \<and> truthy d \<longrightarrow>
        (case map_of kvs cells_key of
           None \<Rightarrow> extract_cells d = Inl KeyError
         | Some v \<Rightarrow> extract_cells d = Inr v))"
  by (auto simp: extract_cells_def split: option.splits)

theorem extract_cells_total_iff_cells_witness:
  "extract_cells PNone = Inr (PList [])
   \<and> extract_cells (PDict []) = Inr (PList [])
   \<and> extract_cells (PDict [(py ''metadata'', PDict [])]) = Inl KeyError
   \<and> extract_cells (PDict [(py ''cells'', PList [PInt 1])]) = Inr (PList [PInt 1])"
  using extract_cells_total_iff_cells [of PNone]
    extract_cells_total_iff_cells [of "PDict []"]
    extract_cells_total_iff_cells [of "PDict [(py ''metadata'', PDict [])]"]
    extract_cells_total_iff_cells [of "PDict [(py ''cells'', PList [PInt 1])]"]
  by (simp add: cells_key_def py_def)

section \<open>Auxiliary lemmas\<close>

lemma keys_distinct:
  "cell_type_key \<noteq> source_key" "source_key \<noteq> cell_type_key"
  "cells_key \<noteq> source_key" "cells_key \<noteq> cell_type_key"
  by (simp_all add: cell_type_key_def source_key_def cells_key_def py_def)

lemma recognized_iff:
  "recognized r \<longleftrightarrow> (\<exists>rs. r = PStr rs \<and> rs \<in> set recognized_roles)"
  by (auto simp: recognized_def)

lemma join_items_strs:
  "list_all is_str frags \<Longrightarrow> \<exists>t. join_items frags = Inr t"
proof (induction frags)
  case Nil
  show ?case by simp
next
  case (Cons f frags)
  then obtain t where "join_items frags = Inr t" by auto
  moreover from Cons.prems obtain u where "f = PStr u" by (cases f) auto
  ultimately show ?case by simp
qed

lemma is_block_reads:
  assumes "is_block cell"
  shows "\<exists>r src. getitem cell cell_type_key = Inr r \<and> cell_source cell = Inr src"
proof -
  from assms obtain kvs where c: "cell = PDict kvs"
    by (cases cell) auto
  with assms obtain r src where r: "map_of kvs cell_type_key = Some r"
    and f0: "map_of kvs source_key = Some src" and s0: "is_str_list src"
    by (auto split: option.splits)
  from s0 obtain frags where "src = PList frags" and s: "list_all is_str frags"
    by (cases src) auto
  with f0 have f: "map_of kvs source_key = Some (PList frags)" by simp
  from join_items_strs [OF s] obtain t where "join_items frags = Inr t" ..
  with c r f show ?thesis
    by (simp add: cell_source_def join_empty_def)
qed

lemma process_loop_acc:
  "process_loop remote acc s cells =
     (case process_loop remote [] s cells of
        (Inl e, s') \<Rightarrow> (Inl e, s')
      | (Inr vs, s') \<Rightarrow> (Inr (acc @ vs), s'))"
proof (induction cells arbitrary: acc s)
  case Nil
  show ?case by simp
next
  case (Cons cell cells)
  show ?case
  proof (cases "process_cell remote s cell")
    case (Pair res s1)
    show ?thesis
    proof (cases res)
      case (Inl e)
      with Pair show ?thesis by simp
    next
      case (Inr v)
      have "process_loop remote (acc @ [v]) s1 cells =
              (case process_loop remote [] s1 cells of
                 (Inl e, s') \<Rightarrow> (Inl e, s') | (Inr vs, s') \<Rightarrow> (Inr (acc @ v # vs), s'))"
        by (subst Cons.IH) (simp split: prod.splits sum.splits)
      moreover have "process_loop remote [v] s1 cells =
              (case process_loop remote [] s1 cells of
                 (Inl e, s') \<Rightarrow> (Inl e, s') | (Inr vs, s') \<Rightarrow> (Inr (v # vs), s'))"
        by (subst Cons.IH) (simp split: prod.splits sum.splits)
      ultimately show ?thesis using Pair Inr
        by (simp split: prod.splits sum.splits)
    qed
  qed
qed

lemma process_loop_Cons:
  "process_loop remote [] s (cell # cells) =
     (case process_cell remote s cell of
        (Inl e, s1) \<Rightarrow> (Inl e, s1)
      | (Inr v, s1) \<Rightarrow>
          (case process_loop remote [] s1 cells of
             (Inl e, s') \<Rightarrow> (Inl e, s')
           | (Inr vs, s') \<Rightarrow> (Inr (v # vs), s')))"
  by (simp add: process_loop_acc [of _ "[_]"] split: prod.splits sum.splits)

lemma process_loop_append:
  "process_loop remote [] s (xs @ ys) =
     (case process_loop remote [] s xs of
        (Inl e, s1) \<Rightarrow> (Inl e, s1)
      | (Inr vs, s1) \<Rightarrow>
          (case process_loop remote [] s1 ys of
             (Inl e, s') \<Rightarrow> (Inl e, s')
           | (Inr ws, s') \<Rightarrow> (Inr (vs @ ws), s')))"
proof (induction xs arbitrary: s)
  case Nil
  show ?case by (simp split: prod.splits sum.splits)
next
  case (Cons x xs)
  show ?case
    unfolding append_Cons process_loop_Cons Cons.IH
    by (simp split: prod.splits sum.splits)
qed

lemma rebuild_loop_length:
  "length (fst (rebuild_loop vs i cells)) = length cells"
proof (induction cells arbitrary: i)
  case Nil
  show ?case by simp
next
  case (Cons cell cells)
  show ?case
    using Cons.IH [of "Suc i"] by (auto split: sum.splits prod.splits)
qed

lemma without_field_setitem:
  "without_field k (setitem x k v) = without_field k x"
  by (cases x) (simp_all add: without_field_def delete_update_same)

lemma getitem_setitem_same:
  "getitem x k' = Inr y \<Longrightarrow> getitem (setitem x k v) k = Inr v"
  by (cases x) (simp_all add: update_conv')

lemma rebuild_loop_frame:
  "list_all2 (\<lambda>c c'. without_field source_key c' = without_field source_key c
                      \<and> (\<not> recognized_cell c \<longrightarrow> c' = c))
     cells (fst (rebuild_loop vs i cells))"
proof (induction cells arbitrary: i)
  case Nil
  show ?case by simp
next
  case (Cons cell cells)
  have refl: "list_all2 (\<lambda>c c'. without_field source_key c' = without_field source_key c
                      \<and> (\<not> recognized_cell c \<longrightarrow> c' = c)) xs xs" for xs
    by (simp add: list_all2_same)
  show ?case
    using Cons.IH [of "Suc i"] refl [of cells]
    by (auto simp: recognized_cell_def without_field_setitem split: sum.splits prod.splits)
qed

lemma rebuild_loop_error:
  assumes "list_all has_cell_type cells"
  shows "snd (rebuild_loop vs i cells) =
           (if \<exists>j<length cells. length vs \<le> i + j \<and> recognized_cell (cells ! j)
            then Some IndexError else None)"
  using assms
proof (induction cells arbitrary: i)
  case Nil
  show ?case by simp
next
  case (Cons cell cells)
  from Cons.prems have hc: "has_cell_type cell" and rest: "list_all has_cell_type cells"
    by simp_all
  from hc obtain r where r: "getitem cell cell_type_key = Inr r"
    by (auto simp: has_cell_type_def split: sum.splits)
  have ex: "(\<exists>j<length (cell # cells). length vs \<le> i + j \<and> recognized_cell ((cell # cells) ! j))
        \<longleftrightarrow> (length vs \<le> i \<and> recognized_cell cell)
            \<or> (\<exists>j<length cells. length vs \<le> Suc i + j \<and> recognized_cell (cells ! j))"
    (is "?L \<longleftrightarrow> ?A \<or> ?B")
  proof
    assume ?L
    then obtain j where j: "j < length (cell # cells)" "length vs \<le> i + j"
      "recognized_cell ((cell # cells) ! j)" by blast
    show "?A \<or> ?B"
    proof (cases j)
      case 0
      with j show ?thesis by simp
    next
      case (Suc j')
      with j have "j' < length cells \<and> length vs \<le> Suc i + j' \<and> recognized_cell (cells ! j')"
        by simp
      then show ?thesis by blast
    qed
  next
    assume "?A \<or> ?B"
    then show ?L
    proof
      assume ?A
      then have "0 < length (cell # cells) \<and> length vs \<le> i + 0
                 \<and> recognized_cell ((cell # cells) ! 0)" by simp
      then show ?L by blast
    next
      assume ?B
      then obtain j where "j < length cells" "length vs \<le> Suc i + j" "recognized_cell (cells ! j)"
        by blast
      then have "Suc j < length (cell # cells) \<and> length vs \<le> i + Suc j
                 \<and> recognized_cell ((cell # cells) ! Suc j)" by simp
      then show ?L by blast
    qed
  qed
  have rc: "recognized_cell cell = recognized r"
    using r by (simp add: recognized_cell_def)
  obtain rest' err where p: "rebuild_loop vs (Suc i) cells = (rest', err)"
    by (cases "rebuild_loop vs (Suc i) cells")
  have ih: "err = (if \<exists>j<length cells. length vs \<le> Suc i + j \<and> recognized_cell (cells ! j)
                   then Some IndexError else None)"
    using Cons.IH [OF rest, of "Suc i"] p by simp
  show ?case
  proof (cases "recognized r")
    case False
    with r rc p ih show ?thesis
      unfolding ex by simp
  next
    case True
    show ?thesis
    proof (cases "i < length vs")
      case True
      with \<open>recognized r\<close> r rc p ih show ?thesis
        unfolding ex by simp
    next
      case False
      with \<open>recognized r\<close> r rc show ?thesis
        unfolding ex by simp
    qed
  qed
qed

lemma is_block_has_cell_type:
  "is_block cell \<Longrightarrow> has_cell_type cell"
  by (cases cell) (auto simp: has_cell_type_def split: option.splits)

lemma blocks_have_cell_type:
  "list_all is_block cells \<Longrightarrow> list_all has_cell_type cells"
  by (induction cells) (auto simp: is_block_has_cell_type)


lemma save_variations_list:
  assumes "getitem nb cells_key = Inr (PList cells)"
  shows "save_variations vs ok nb =
           \<lparr>notebook_after = setitem nb cells_key (PList (fst (rebuild_loop vs 0 cells))),
            written = (if snd (rebuild_loop vs 0 cells) = None \<and> ok
                       then Some (setitem nb cells_key (PList (fst (rebuild_loop vs 0 cells))))
                       else None),
            raised = snd (rebuild_loop vs 0 cells)\<rparr>"
  using assms
  by (cases "rebuild_loop vs 0 cells")
     (auto simp: save_variations_def Let_def split: option.splits)

lemma save_variations_not_list:
  assumes "\<forall>cells. getitem nb cells_key \<noteq> Inr (PList cells)"
  shows "notebook_after (save_variations vs ok nb) = nb"
  using assms
  by (auto simp: save_variations_def Let_def
           split: sum.splits pyval.splits prod.splits option.splits)

lemma save_variations_written:
  "written (save_variations vs ok nb) = Some w \<Longrightarrow>
     w = notebook_after (save_variations vs ok nb) \<and> raised (save_variations vs ok nb) = None"
  by (auto simp: save_variations_def Let_def
           split: sum.splits pyval.splits prod.splits option.splits if_splits)

lemma save_variations_cells_after:
  assumes "getitem nb cells_key = Inr (PList cells)"
  shows "getitem (notebook_after (save_variations vs ok nb)) cells_key
           = Inr (PList (fst (rebuild_loop vs 0 cells)))"
  using assms by (simp add: save_variations_list getitem_setitem_same)

lemma save_variations_frame_doc:
  "without_field cells_key (notebook_after (save_variations vs ok nb)) = without_field cells_key nb"
proof (cases "\<exists>cells. getitem nb cells_key = Inr (PList cells)")
  case True
  then obtain cells where "getitem nb cells_key = Inr (PList cells)" ..
  then show ?thesis
    by (simp add: save_variations_list without_field_setitem)
next
  case False
  then show ?thesis
    by (simp add: save_variations_not_list)
qed

lemma without_field_getitem:
  assumes "without_field k' a = without_field k' b" and "k \<noteq> k'"
  shows "getitem a k = getitem b k"
proof (cases a)
  case (PDict kvs)
  with assms(1) obtain kvs' where b: "b = PDict kvs'"
    by (cases b) (auto simp: without_field_def)
  from assms(1) PDict b have "AList.delete k' kvs = AList.delete k' kvs'"
    by (simp add: without_field_def)
  then have "map_of (AList.delete k' kvs) k = map_of (AList.delete k' kvs') k" by simp
  with assms(2) have "map_of kvs k = map_of kvs' k"
    by (simp add: delete_conv')
  with PDict b show ?thesis by simp
qed (use assms(1) in \<open>cases b; auto simp: without_field_def\<close>)+

lemma concat_splitlines_from:
  "concat (splitlines_from line s) = line @ s"
  by (induction line s rule: splitlines_from.induct) (auto split: list.splits)

lemma is_line_snoc:
  "list_all (\<lambda>c. \<not> is_linebreak c) line \<Longrightarrow> is_line (line @ [c])"
  by (simp add: is_line_def)

lemma is_line_crlf:
  "list_all (\<lambda>c. \<not> is_linebreak c) line \<Longrightarrow> is_line (line @ [13, 10])"
  by (simp add: is_line_def)

lemma is_line_unterminated:
  "list_all (\<lambda>c. \<not> is_linebreak c) line \<Longrightarrow> line \<noteq> [] \<Longrightarrow> is_line line"
  by (cases line rule: rev_cases) (simp_all add: is_line_def)

lemma lines_splitlines_from:
  "list_all (\<lambda>c. \<not> is_linebreak c) line \<Longrightarrow> list_all is_line (splitlines_from line s)"
proof (induction line s rule: splitlines_from.induct)
  case (1 line)
  then show ?case by (simp add: is_line_unterminated)
next
  case (2 line c cs)
  show ?case
  proof (cases "c = 13")
    case True
    show ?thesis
    proof (cases cs)
      case Nil
      with True 2 show ?thesis by (simp add: is_line_snoc)
    next
      case (Cons d ds)
      with True 2 show ?thesis by (simp add: is_line_snoc is_line_crlf)
    qed
  next
    case False
    with 2 show ?thesis by (simp add: is_line_snoc)
  qed
qed

lemma breaks_splitlines_from:
  "Suc j < length (splitlines_from line s) \<Longrightarrow> is_linebreak (last (splitlines_from line s ! j))"
proof (induction line s arbitrary: j rule: splitlines_from.induct)
  case (1 line)
  then show ?case by (simp split: if_splits)
next
  case (2 line c cs)
  have lb13: "is_linebreak 13" and lb10: "is_linebreak 10"
    by (simp_all add: is_linebreak_def)
  have step: "is_linebreak (last ((f # fs) ! j))"
    if "is_linebreak (last f)"
      and "\<And>i. Suc i < length fs \<Longrightarrow> is_linebreak (last (fs ! i))"
      and "Suc j < length (f # fs)" for f fs
    using that by (cases j) simp_all
  show ?case
  proof (cases "c = 13")
    case True
    show ?thesis
    proof (cases cs)
      case Nil
      with True 2 show ?thesis by simp
    next
      case (Cons d ds)
      show ?thesis
      proof (cases "d = 10")
        case d10: True
        have eq: "splitlines_from line (c # cs) = (line @ [c, d]) # splitlines_from [] ds"
          using True Cons d10 by simp
        show ?thesis
          unfolding eq
        proof (rule step)
          show "is_linebreak (last (line @ [c, d]))" using d10 lb10 by simp
          show "Suc i < length (splitlines_from [] ds)
                  \<Longrightarrow> is_linebreak (last (splitlines_from [] ds ! i))" for i
            by (rule "2.IH"(1) [OF True Cons d10])
          show "Suc j < length ((line @ [c, d]) # splitlines_from [] ds)"
            using "2.prems" unfolding eq .
        qed
      next
        case False
        have eq: "splitlines_from line (c # cs) = (line @ [c]) # splitlines_from [] cs"
          using True Cons False by simp
        show ?thesis
          unfolding eq
        proof (rule step)
          show "is_linebreak (last (line @ [c]))" using True lb13 by simp
          show "Suc i < length (splitlines_from [] cs)
                  \<Longrightarrow> is_linebreak (last (splitlines_from [] cs ! i))" for i
            by (rule "2.IH"(2) [OF True Cons False])
          show "Suc j < length ((line @ [c]) # splitlines_from [] cs)"
            using "2.prems" unfolding eq .
        qed
      qed
    qed
  next
    case False
    show ?thesis
    proof (cases "is_linebreak c")
      case True
      have eq: "splitlines_from line (c # cs) = (line @ [c]) # splitlines_from [] cs"
        using True False by simp
      show ?thesis
        unfolding eq
      proof (rule step)
        show "is_linebreak (last (line @ [c]))" using True by simp
        show "Suc i < length (splitlines_from [] cs)
                \<Longrightarrow> is_linebreak (last (splitlines_from [] cs ! i))" for i
          by (rule "2.IH"(3) [OF False True])
        show "Suc j < length ((line @ [c]) # splitlines_from [] cs)"
          using "2.prems" unfolding eq .
      qed
    next
      case no: False
      have eq: "splitlines_from line (c # cs) = splitlines_from (line @ [c]) cs"
        using no False by simp
      show ?thesis
        unfolding eq
        by (rule "2.IH"(4) [OF False no]) (use "2.prems" in \<open>simp only: eq\<close>)
    qed
  qed
qed

lemma splitlines_keepends_lines:
  "concat (splitlines_keepends t) = t"
  "list_all is_line (splitlines_keepends t)"
  "Suc j < length (splitlines_keepends t) \<Longrightarrow> is_linebreak (last (splitlines_keepends t ! j))"
  by (simp_all add: splitlines_keepends_def concat_splitlines_from lines_splitlines_from
        breaks_splitlines_from)

lemma rebuild_loop_recognized:
  assumes "snd (rebuild_loop vs k cells) = None" and "i < length cells"
    and "recognized_cell (cells ! i)"
  shows "k + i < length vs
         \<and> fst (rebuild_loop vs k cells) ! i
             = setitem (cells ! i) source_key
                 (PList (map PStr (splitlines_keepends (variation (vs ! (k + i))))))"
  using assms
proof (induction cells arbitrary: k i)
  case Nil
  then show ?case by simp
next
  case (Cons cell cells)
  obtain rest' err where p: "rebuild_loop vs (Suc k) cells = (rest', err)"
    by (cases "rebuild_loop vs (Suc k) cells")
  from Cons.prems(1) obtain r where r: "getitem cell cell_type_key = Inr r"
    by (auto split: sum.splits)
  from Cons.prems(1) r p have ok: "recognized r \<longrightarrow> k < length vs" and e: "err = None"
    by (auto split: if_splits)
  show ?case
  proof (cases i)
    case 0
    with Cons.prems(3) r have "recognized r" by (simp add: recognized_cell_def)
    with ok r p 0 show ?thesis by simp
  next
    case (Suc i')
    with Cons.prems have "i' < length cells" "recognized_cell (cells ! i')" by simp_all
    from Cons.IH [of "Suc k" i'] p e this
    have "Suc k + i' < length vs \<and> rest' ! i'
             = setitem (cells ! i') source_key
                 (PList (map PStr (splitlines_keepends (variation (vs ! (Suc k + i'))))))"
      by simp
    with ok r p Suc show ?thesis by simp
  qed
qed

lemma join_items_strs_concat:
  "join_items (map PStr frags) = Inr (concat frags)"
  by (induction frags) simp_all

lemma cell_source_setitem:
  assumes "getitem c k = Inr r"
  shows "cell_source (setitem c source_key (PList (map PStr frags))) = Inr (concat frags)"
  using getitem_setitem_same [OF assms, of source_key "PList (map PStr frags)"]
  by (simp add: cell_source_def join_empty_def join_items_strs_concat)

lemma process_loop_cells:
  assumes "process_loop remote [] s cells = (Inr vs, s')"
  shows "list_all2 (\<lambda>cell v. \<exists>s1 s2. process_cell remote s1 cell = (Inr v, s2)) cells vs"
  using assms
proof (induction cells arbitrary: s vs)
  case Nil
  then show ?case by simp
next
  case (Cons cell cells)
  from Cons.prems obtain v s1 ws where
    c: "process_cell remote s cell = (Inr v, s1)"
    and l: "process_loop remote [] s1 cells = (Inr ws, s')" and vs: "vs = v # ws"
    unfolding process_loop_Cons by (auto split: prod.splits sum.splits)
  from Cons.IH [OF l] c vs show ?case by auto
qed


lemma generate_result:
  "generate_variation_with_function_call remote s message r lang ctx ps doc aud len =
     (case remote s (build_prompt message r lang ctx ps doc aud len) of
        (Raises, s') \<Rightarrow> (Inl AttributeError, s')
      | (Returns c, s') \<Rightarrow> (Inr message, s'))"
  by (simp add: generate_variation_with_function_call_def str_in_completion_def
        split: prod.splits remote_outcome.splits)

lemma process_cell_recognized:
  assumes "getitem cell cell_type_key = Inr (PStr rs)" and "cell_source cell = Inr src"
    and "rs \<in> set recognized_roles"
  shows "process_cell remote s cell =
           (case remote s (cell_prompt src rs) of
              (Raises, s') \<Rightarrow> (Inl AttributeError, s')
            | (Returns c, s') \<Rightarrow>
                (Inr \<lparr>role = PStr rs, original = src, variation = src\<rparr>, s'))"
  using assms
  by (simp add: process_cell_def generate_result cell_prompt_def
        split: prod.splits remote_outcome.splits)

lemma process_cell_passthrough:
  assumes "getitem cell cell_type_key = Inr r" and "cell_source cell = Inr src"
    and "\<not> recognized r"
  shows "process_cell remote s cell = (Inr \<lparr>role = r, original = src, variation = src\<rparr>, s)"
  using assms by (auto simp: process_cell_def recognized_iff split: pyval.splits)

lemma process_cell_block:
  assumes "is_block cell"
  shows "(\<exists>v s'. process_cell remote s cell = (Inr v, s')
            \<and> getitem cell cell_type_key = Inr (role v) \<and> cell_source cell = Inr (original v))
         \<or> (\<exists>s'. process_cell remote s cell = (Inl AttributeError, s'))"
proof -
  from is_block_reads [OF assms] obtain r src where
    r: "getitem cell cell_type_key = Inr r" and src: "cell_source cell = Inr src" by blast
  show ?thesis
  proof (cases "recognized r")
    case False
    from process_cell_passthrough [OF r src False, of remote s] r src show ?thesis by simp
  next
    case True
    then obtain rs where rs: "r = PStr rs" "rs \<in> set recognized_roles"
      by (auto simp: recognized_iff)
    obtain out s' where o: "remote s (cell_prompt src rs) = (out, s')"
      by (cases "remote s (cell_prompt src rs)")
    from process_cell_recognized [OF r [unfolded rs(1)] src rs(2), of remote s] o r src rs
    show ?thesis by (cases out) simp_all
  qed
qed

lemma process_loop_blocks:
  assumes "list_all is_block cells"
  shows "(\<exists>vs s'. process_loop remote [] s cells = (Inr vs, s')
            \<and> list_all2 (\<lambda>cell v. getitem cell cell_type_key = Inr (role v)
                                   \<and> cell_source cell = Inr (original v)) cells vs)
         \<or> (\<exists>s'. process_loop remote [] s cells = (Inl AttributeError, s'))"
  using assms
proof (induction cells arbitrary: s)
  case Nil
  show ?case by simp
next
  case (Cons cell cells)
  from Cons.prems have b: "is_block cell" and bs: "list_all is_block cells" by simp_all
  from process_cell_block [OF b, of remote s] show ?case
  proof
    assume "\<exists>s'. process_cell remote s cell = (Inl AttributeError, s')"
    then show ?thesis unfolding process_loop_Cons by auto
  next
    assume "\<exists>v s'. process_cell remote s cell = (Inr v, s')
            \<and> getitem cell cell_type_key = Inr (role v) \<and> cell_source cell = Inr (original v)"
    then obtain v s1 where
      v: "process_cell remote s cell = (Inr v, s1)"
      "getitem cell cell_type_key = Inr (role v)" "cell_source cell = Inr (original v)"
      by blast
    from Cons.IH [OF bs, of s1] show ?thesis
    proof
      assume "\<exists>s'. process_loop remote [] s1 cells = (Inl AttributeError, s')"
      with v show ?thesis unfolding process_loop_Cons by auto
    next
      assume "\<exists>vs s'. process_loop remote [] s1 cells = (Inr vs, s')
            \<and> list_all2 (\<lambda>cell v. getitem cell cell_type_key = Inr (role v)
                                   \<and> cell_source cell = Inr (original v)) cells vs"
      then obtain vs s' where
        vs: "process_loop remote [] s1 cells = (Inr vs, s')"
        "list_all2 (\<lambda>cell v. getitem cell cell_type_key = Inr (role v)
                                   \<and> cell_source cell = Inr (original v)) cells vs"
        by blast
      have "process_loop remote [] s (cell # cells) = (Inr (v # vs), s')"
        unfolding process_loop_Cons using v vs by simp
      with v vs show ?thesis by auto
    qed
  qed
qed


section \<open>Processing\<close>

text \<open>
  C1, evaluated on the code: for one block of a recognized role whose service call
  raises, process returns no records: \<^verbatim>\<open>AttributeError\<close> leaves it. The empty sequence
  does give the empty result. On a sequence of blocks process either returns one record
  per block, in the order of the input, or ends with that \<^verbatim>\<open>AttributeError\<close>; it ends
  with no other exception.
\<close>

theorem process_raises_when_service_call_raises:
  "process_cells_with_function_call always_raises 0 (PList [mk_cell ''code'' [''x'']])
     = (Inl AttributeError, 1)
   \<and> process_cells_with_function_call remote s (PList []) = (Inr [], s)
   \<and> (list_all is_block cells \<longrightarrow>
        ((\<exists>vs s'. process_cells_with_function_call remote s (PList cells) = (Inr vs, s')
            \<and> length vs = length cells
            \<and> list_all2 (\<lambda>cell v. getitem cell cell_type_key = Inr (role v)
                                   \<and> cell_source cell = Inr (original v)) cells vs)
         \<or> (\<exists>s'. process_cells_with_function_call remote s (PList cells)
                    = (Inl AttributeError, s'))))"
proof (intro conjI impI)
  show "process_cells_with_function_call always_raises 0 (PList [mk_cell ''code'' [''x'']])
          = (Inl AttributeError, 1)"
    by (simp add: process_cells_with_function_call_def process_cell_def mk_cell_def
          cell_source_def join_empty_def keys_distinct recognized_roles_def
          generate_variation_with_function_call_def always_raises_def py_def)
next
  show "process_cells_with_function_call remote s (PList []) = (Inr [], s)"
    by (simp add: process_cells_with_function_call_def)
next
  assume "list_all is_block cells"
  from process_loop_blocks [OF this, of remote s]
  show "(\<exists>vs s'. process_cells_with_function_call remote s (PList cells) = (Inr vs, s')
            \<and> length vs = length cells
            \<and> list_all2 (\<lambda>cell v. getitem cell cell_type_key = Inr (role v)
                                   \<and> cell_source cell = Inr (original v)) cells vs)
         \<or> (\<exists>s'. process_cells_with_function_call remote s (PList cells)
                    = (Inl AttributeError, s'))"
    by (auto simp: process_cells_with_function_call_def list_all2_lengthD [symmetric])
qed

theorem process_raises_when_service_call_raises_witness:
  "list_all is_block [mk_cell ''code'' [''x''], mk_cell ''raw'' [''y'', ''z'']]
   \<and> process_cells_with_function_call failing_second 0
        (PList [mk_cell ''code'' [''x''], mk_cell ''raw'' [''y'', ''z'']])
       = (Inr [mk_varied ''code'' ''x'' ''x'', mk_varied ''raw'' ''yz'' ''yz''], 1)
   \<and> ((\<exists>vs s'. process_cells_with_function_call failing_second 0
                   (PList [mk_cell ''code'' [''x''], mk_cell ''raw'' [''y'', ''z'']]) = (Inr vs, s')
          \<and> length vs = length [mk_cell ''code'' [''x''], mk_cell ''raw'' [''y'', ''z'']]
          \<and> list_all2 (\<lambda>cell v. getitem cell cell_type_key = Inr (role v)
                                 \<and> cell_source cell = Inr (original v))
               [mk_cell ''code'' [''x''], mk_cell ''raw'' [''y'', ''z'']] vs)
       \<or> (\<exists>s'. process_cells_with_function_call failing_second 0
                   (PList [mk_cell ''code'' [''x''], mk_cell ''raw'' [''y'', ''z'']])
                  = (Inl AttributeError, s')))
   \<and> process_cells_with_function_call always_raises 0 (PList [mk_cell ''code'' [''x'']])
       = (Inl AttributeError, 1)"
proof -
  have h: "list_all is_block [mk_cell ''code'' [''x''], mk_cell ''raw'' [''y'', ''z'']]"
    by (simp add: mk_cell_def keys_distinct)
  have run: "process_cells_with_function_call failing_second 0
        (PList [mk_cell ''code'' [''x''], mk_cell ''raw'' [''y'', ''z'']])
       = (Inr [mk_varied ''code'' ''x'' ''x'', mk_varied ''raw'' ''yz'' ''yz''], 1)"
    by (simp add: process_cells_with_function_call_def process_cell_def mk_cell_def
          mk_varied_def cell_source_def join_empty_def keys_distinct recognized_roles_def
          generate_variation_with_function_call_def str_in_completion_def failing_second_def
          py_def)
  from process_raises_when_service_call_raises
         [of failing_second 0 "[mk_cell ''code'' [''x''], mk_cell ''raw'' [''y'', ''z'']]"]
    h run
  show ?thesis by blast
qed

text \<open>
  C2, evaluated on the code: for a block of a recognized role whose service call raises,
  generate does not return the message: \<^verbatim>\<open>AttributeError\<close> leaves it, and it leaves
  process too, whatever blocks follow: they are not processed and no record is returned.
  When the call returns a completion, generate does return the message, also for a
  completion without choices.
\<close>

theorem service_error_escapes_generate:
  assumes pre: "process_cells_with_function_call remote s (PList pre) = (Inr vs1, s1)"
    and role: "getitem cell cell_type_key = Inr (PStr rs)" "rs \<in> set recognized_roles"
    and src: "cell_source cell = Inr src"
    and fail: "remote s1 (cell_prompt src rs) = (Raises, s2)"
  shows "generate_variation_with_function_call remote s1 src rs (py ''python'')
             (py ''This is part of a Jupyter notebook.'') True True (py ''general'') (Some 150)
           = (Inl AttributeError, s2)
         \<and> process_cells_with_function_call remote s (PList (pre @ cell # post))
             = (Inl AttributeError, s2)
         \<and> (\<forall>t message r lang ctx ps doc aud len c t'.
               remote t (build_prompt message r lang ctx ps doc aud len) = (Returns c, t')
               \<longrightarrow> generate_variation_with_function_call remote t message r lang ctx ps doc aud len
                     = (Inr message, t'))"
proof (intro conjI allI impI)
  show "generate_variation_with_function_call remote s1 src rs (py ''python'')
             (py ''This is part of a Jupyter notebook.'') True True (py ''general'') (Some 150)
           = (Inl AttributeError, s2)"
    using fail by (simp add: generate_result cell_prompt_def)
next
  have c: "process_cell remote s1 cell = (Inl AttributeError, s2)"
    using fail by (simp add: process_cell_recognized [OF role(1) src role(2)])
  from pre have q: "process_loop remote [] s pre = (Inr vs1, s1)"
    by (simp add: process_cells_with_function_call_def)
  have "process_loop remote [] s (pre @ cell # post) = (Inl AttributeError, s2)"
    unfolding process_loop_append process_loop_Cons using q c by simp
  then show "process_cells_with_function_call remote s (PList (pre @ cell # post))
               = (Inl AttributeError, s2)"
    by (simp add: process_cells_with_function_call_def)
next
  fix t message r lang ctx ps doc aud len c t'
  assume "remote t (build_prompt message r lang ctx ps doc aud len) = (Returns c, t')"
  then show "generate_variation_with_function_call remote t message r lang ctx ps doc aud len
               = (Inr message, t')"
    by (simp add: generate_result)
qed

theorem service_error_escapes_generate_witness:
  "process_cells_with_function_call failing_second 0 (PList [mk_cell ''code'' [''x'']])
     = (Inr [mk_varied ''code'' ''x'' ''x''], 1)
   \<and> getitem (mk_cell ''markdown'' [''y'']) cell_type_key = Inr (PStr (py ''markdown''))
   \<and> py ''markdown'' \<in> set recognized_roles
   \<and> cell_source (mk_cell ''markdown'' [''y'']) = Inr (py ''y'')
   \<and> failing_second 1 (cell_prompt (py ''y'') (py ''markdown'')) = (Raises, 2)
   \<and> failing_second 0 (build_prompt (py ''x'') (py ''code'') (py ''python'') (py ''nb'')
        True True (py ''general'') (Some 150))
       = (Returns (Completion [Choice (py ''print(2)  '')]), 1)
   \<and> generate_variation_with_function_call failing_second 0 (py ''x'') (py ''code'')
        (py ''python'') (py ''nb'') True True (py ''general'') (Some 150) = (Inr (py ''x''), 1)
   \<and> generate_variation_with_function_call failing_second 1 (py ''y'') (py ''markdown'')
        (py ''python'') (py ''This is part of a Jupyter notebook.'') True True (py ''general'')
        (Some 150) = (Inl AttributeError, 2)
   \<and> process_cells_with_function_call failing_second 0
        (PList [mk_cell ''code'' [''x''], mk_cell ''markdown'' [''y''],
                mk_cell ''raw'' [''z''], mk_cell ''code'' [''w'']])
       = (Inl AttributeError, 2)"
proof -
  have h1: "process_cells_with_function_call failing_second 0 (PList [mk_cell ''code'' [''x'']])
     = (Inr [mk_varied ''code'' ''x'' ''x''], 1)"
    by (simp add: process_cells_with_function_call_def process_cell_def mk_cell_def
          mk_varied_def cell_source_def join_empty_def keys_distinct recognized_roles_def
          generate_variation_with_function_call_def str_in_completion_def failing_second_def
          py_def)
  have h2: "getitem (mk_cell ''markdown'' [''y'']) cell_type_key = Inr (PStr (py ''markdown''))"
    by (simp add: mk_cell_def)
  have h3: "py ''markdown'' \<in> set recognized_roles"
    by (simp add: recognized_roles_def)
  have h4: "cell_source (mk_cell ''markdown'' [''y'']) = Inr (py ''y'')"
    by (simp add: mk_cell_def cell_source_def join_empty_def keys_distinct)
  have h5: "failing_second 1 (cell_prompt (py ''y'') (py ''markdown'')) = (Raises, 2)"
    by (simp add: failing_second_def)
  have h6: "failing_second 0 (build_prompt (py ''x'') (py ''code'') (py ''python'') (py ''nb'')
        True True (py ''general'') (Some 150))
       = (Returns (Completion [Choice (py ''print(2)  '')]), 1)"
    by (simp add: failing_second_def)
  from service_error_escapes_generate [of failing_second 0 "[mk_cell ''code'' [''x'']]"
      "[mk_varied ''code'' ''x'' ''x'']" 1 "mk_cell ''markdown'' [''y'']" "py ''markdown''"
      "py ''y''" 2 "[mk_cell ''raw'' [''z''], mk_cell ''code'' [''w'']]", OF h1 h2 h3 h4 h5]
    h1 h2 h3 h4 h5 h6
  show ?thesis by simp
qed

section \<open>Rebuilding\<close>

text \<open>
  With two variations for a single cell, \<^verbatim>\<open>save_variations\<close> raises nothing, ignores the
  second variation and writes the file; with no variation for one cell of an
  unrecognized role it raises nothing either and writes the notebook as it was.
\<close>

theorem rebuild_mismatch_counterexample:
  "length [mk_varied ''code'' ''a'' ''b'', mk_varied ''code'' ''c'' ''d'']
     \<noteq> length [mk_cell ''code'' [''a'']]
   \<and> save_variations [mk_varied ''code'' ''a'' ''b'', mk_varied ''code'' ''c'' ''d''] True
         (mk_notebook [mk_cell ''code'' [''a'']])
       = \<lparr>notebook_after = mk_notebook [mk_cell ''code'' [''b'']],
          written = Some (mk_notebook [mk_cell ''code'' [''b'']]),
          raised = None\<rparr>
   \<and> length ([] :: varied list) \<noteq> length [mk_cell ''raw'' [''a'']]
   \<and> save_variations [] True (mk_notebook [mk_cell ''raw'' [''a'']])
       = \<lparr>notebook_after = mk_notebook [mk_cell ''raw'' [''a'']],
          written = Some (mk_notebook [mk_cell ''raw'' [''a'']]),
          raised = None\<rparr>"
  by (simp add: save_variations_def mk_notebook_def mk_cell_def mk_varied_def
        recognized_def recognized_roles_def keys_distinct Let_def
        splitlines_keepends_def is_linebreak_def py_def)

text \<open>
  C3, as the code has it: on a document of blocks, rebuild fails with
  \<^verbatim>\<open>IndexError\<close> exactly when some block of a recognized role sits at an index that is
  not below the number of variations, and otherwise it raises nothing; whenever it
  raises, nothing is written.
\<close>

theorem rebuild_index_error_iff:
  assumes "getitem nb cells_key = Inr (PList cells)" and "list_all is_block cells"
  shows "(raised (save_variations vs ok nb) = Some IndexError
            \<longleftrightarrow> (\<exists>i<length cells. length vs \<le> i \<and> recognized_cell (cells ! i)))
         \<and> (raised (save_variations vs ok nb) = None
            \<longleftrightarrow> \<not> (\<exists>i<length cells. length vs \<le> i \<and> recognized_cell (cells ! i)))
         \<and> (raised (save_variations vs ok nb) \<noteq> None
            \<longrightarrow> written (save_variations vs ok nb) = None)"
proof -
  have "raised (save_variations vs ok nb) = snd (rebuild_loop vs 0 cells)"
    using assms(1) by (simp add: save_variations_list)
  also have "\<dots> = (if \<exists>i<length cells. length vs \<le> i \<and> recognized_cell (cells ! i)
                   then Some IndexError else None)"
    using rebuild_loop_error [OF blocks_have_cell_type [OF assms(2)], of vs 0] by simp
  finally have r: "raised (save_variations vs ok nb) =
      (if \<exists>i<length cells. length vs \<le> i \<and> recognized_cell (cells ! i)
       then Some IndexError else None)" .
  have w: "raised (save_variations vs ok nb) \<noteq> None
            \<longrightarrow> written (save_variations vs ok nb) = None"
    using assms(1) by (simp add: save_variations_list)
  from r w show ?thesis by auto
qed

theorem rebuild_index_error_iff_witness:
  "getitem (mk_notebook [mk_cell ''raw'' [''a''], mk_cell ''code'' [''b'']]) cells_key
     = Inr (PList [mk_cell ''raw'' [''a''], mk_cell ''code'' [''b'']])
   \<and> list_all is_block [mk_cell ''raw'' [''a''], mk_cell ''code'' [''b'']]
   \<and> recognized_cell ([mk_cell ''raw'' [''a''], mk_cell ''code'' [''b'']] ! 1)
   \<and> raised (save_variations [mk_varied ''raw'' ''a'' ''a''] True
               (mk_notebook [mk_cell ''raw'' [''a''], mk_cell ''code'' [''b'']]))
       = Some IndexError
   \<and> written (save_variations [mk_varied ''raw'' ''a'' ''a''] True
               (mk_notebook [mk_cell ''raw'' [''a''], mk_cell ''code'' [''b'']]))
       = None"
proof -
  let ?cells = "[mk_cell ''raw'' [''a''], mk_cell ''code'' [''b'']]"
  have h1: "getitem (mk_notebook ?cells) cells_key = Inr (PList ?cells)"
    by (simp add: mk_notebook_def)
  have h2: "list_all is_block ?cells"
    by (simp add: mk_cell_def keys_distinct)
  have h3: "recognized_cell (?cells ! 1)"
    by (simp add: recognized_cell_def mk_cell_def recognized_def recognized_roles_def py_def)
  have "\<exists>i<length ?cells. length [mk_varied ''raw'' ''a'' ''a''] \<le> i \<and> recognized_cell (?cells ! i)"
    using h3 by (intro exI [of _ 1]) simp
  with rebuild_index_error_iff [OF h1 h2, of "[mk_varied ''raw'' ''a'' ''a'']" True] h1 h2 h3
  show ?thesis by simp
qed

text \<open>
  C9: rebuild changes at most the \<^verbatim>\<open>source\<close> entry of recognized blocks. The document
  without its \<^verbatim>\<open>cells\<close> entry is unchanged; the cells stay as many, each cell without
  its \<^verbatim>\<open>source\<close> entry is unchanged (so every other key reads as before, the role
  included), and a cell that is not recognized is unchanged altogether. A document
  whose \<^verbatim>\<open>cells\<close> entry is not a list is left as it is, and what is written to the
  file is the notebook as the call leaves it.
\<close>

theorem rebuild_frame:
  "without_field cells_key (notebook_after (save_variations vs ok nb)) = without_field cells_key nb
   \<and> (\<forall>cells. getitem nb cells_key = Inr (PList cells) \<longrightarrow>
         (\<exists>cells'. getitem (notebook_after (save_variations vs ok nb)) cells_key = Inr (PList cells')
            \<and> list_all2
                 (\<lambda>c c'. without_field source_key c' = without_field source_key c
                          \<and> (\<forall>k. k \<noteq> source_key \<longrightarrow> getitem c' k = getitem c k)
                          \<and> (\<not> recognized_cell c \<longrightarrow> c' = c))
                 cells cells'))
   \<and> ((\<forall>cells. getitem nb cells_key \<noteq> Inr (PList cells)) \<longrightarrow>
         notebook_after (save_variations vs ok nb) = nb)
   \<and> (\<forall>w. written (save_variations vs ok nb) = Some w \<longrightarrow>
         w = notebook_after (save_variations vs ok nb))"
proof (intro conjI allI impI)
  show "without_field cells_key (notebook_after (save_variations vs ok nb))
          = without_field cells_key nb"
    by (rule save_variations_frame_doc)
next
  fix cells
  assume c: "getitem nb cells_key = Inr (PList cells)"
  have "list_all2
          (\<lambda>c c'. without_field source_key c' = without_field source_key c
                   \<and> (\<forall>k. k \<noteq> source_key \<longrightarrow> getitem c' k = getitem c k)
                   \<and> (\<not> recognized_cell c \<longrightarrow> c' = c))
          cells (fst (rebuild_loop vs 0 cells))"
    by (rule list_all2_mono [OF rebuild_loop_frame [of cells vs 0]])
       (auto intro: without_field_getitem)
  with save_variations_cells_after [OF c, of vs ok]
  show "\<exists>cells'. getitem (notebook_after (save_variations vs ok nb)) cells_key = Inr (PList cells')
            \<and> list_all2
                 (\<lambda>c c'. without_field source_key c' = without_field source_key c
                          \<and> (\<forall>k. k \<noteq> source_key \<longrightarrow> getitem c' k = getitem c k)
                          \<and> (\<not> recognized_cell c \<longrightarrow> c' = c))
                 cells cells'"
    by blast
next
  assume "\<forall>cells. getitem nb cells_key \<noteq> Inr (PList cells)"
  then show "notebook_after (save_variations vs ok nb) = nb"
    by (rule save_variations_not_list)
next
  fix w
  assume "written (save_variations vs ok nb) = Some w"
  then show "w = notebook_after (save_variations vs ok nb)"
    by (simp add: save_variations_written)
qed

theorem rebuild_frame_witness:
  "getitem (mk_notebook
       [PDict [(cell_type_key, PStr (py ''code'')), (py ''execution_count'', PInt 3),
               (source_key, PList [PStr (py ''a'')])],
        mk_cell ''raw'' [''r'']]) cells_key
     = Inr (PList
       [PDict [(cell_type_key, PStr (py ''code'')), (py ''execution_count'', PInt 3),
               (source_key, PList [PStr (py ''a'')])],
        mk_cell ''raw'' [''r'']])
   \<and> written (save_variations [mk_varied ''code'' ''a'' ''b'', mk_varied ''raw'' ''r'' ''r''] True
        (mk_notebook
          [PDict [(cell_type_key, PStr (py ''code'')), (py ''execution_count'', PInt 3),
                  (source_key, PList [PStr (py ''a'')])],
           mk_cell ''raw'' [''r'']]))
     = Some (mk_notebook
          [PDict [(cell_type_key, PStr (py ''code'')), (py ''execution_count'', PInt 3),
                  (source_key, PList [PStr (py ''b'')])],
           mk_cell ''raw'' [''r'']])
   \<and> (\<forall>cells. getitem PNone cells_key \<noteq> Inr (PList cells))
   \<and> notebook_after (save_variations [] True PNone) = PNone
   \<and> notebook_after (save_variations [mk_varied ''code'' ''a'' ''b'', mk_varied ''raw'' ''r'' ''r''] True
        (mk_notebook
          [PDict [(cell_type_key, PStr (py ''code'')), (py ''execution_count'', PInt 3),
                  (source_key, PList [PStr (py ''a'')])],
           mk_cell ''raw'' [''r'']]))
     = mk_notebook
          [PDict [(cell_type_key, PStr (py ''code'')), (py ''execution_count'', PInt 3),
                  (source_key, PList [PStr (py ''b'')])],
           mk_cell ''raw'' [''r'']]
   \<and> (\<exists>cells'. getitem (notebook_after
          (save_variations [mk_varied ''code'' ''a'' ''b'', mk_varied ''raw'' ''r'' ''r''] True
            (mk_notebook
              [PDict [(cell_type_key, PStr (py ''code'')), (py ''execution_count'', PInt 3),
                      (source_key, PList [PStr (py ''a'')])],
               mk_cell ''raw'' [''r'']]))) cells_key = Inr (PList cells')
        \<and> list_all2
             (\<lambda>c c'. without_field source_key c' = without_field source_key c
                      \<and> (\<forall>k. k \<noteq> source_key \<longrightarrow> getitem c' k = getitem c k)
                      \<and> (\<not> recognized_cell c \<longrightarrow> c' = c))
             [PDict [(cell_type_key, PStr (py ''code'')), (py ''execution_count'', PInt 3),
                     (source_key, PList [PStr (py ''a'')])],
              mk_cell ''raw'' [''r'']] cells')"
proof -
  let ?cells = "[PDict [(cell_type_key, PStr (py ''code'')), (py ''execution_count'', PInt 3),
                        (source_key, PList [PStr (py ''a'')])],
                 mk_cell ''raw'' [''r'']]"
  let ?vs = "[mk_varied ''code'' ''a'' ''b'', mk_varied ''raw'' ''r'' ''r'']"
  have h1: "getitem (mk_notebook ?cells) cells_key = Inr (PList ?cells)"
    by (simp add: mk_notebook_def)
  have h2: "written (save_variations ?vs True (mk_notebook ?cells))
     = Some (mk_notebook
          [PDict [(cell_type_key, PStr (py ''code'')), (py ''execution_count'', PInt 3),
                  (source_key, PList [PStr (py ''b'')])],
           mk_cell ''raw'' [''r'']])"
    by (simp add: save_variations_def mk_notebook_def mk_cell_def mk_varied_def
          recognized_def recognized_roles_def keys_distinct Let_def
          splitlines_keepends_def is_linebreak_def py_def source_key_def
          cell_type_key_def cells_key_def)
  have h3: "\<forall>cells. getitem PNone cells_key \<noteq> Inr (PList cells)"
    by simp
  from rebuild_frame [of ?vs True "mk_notebook ?cells"] rebuild_frame [of "[]" True PNone]
    h1 h2 h3
  show ?thesis by simp
qed

section \<open>The absent document\<close>

text \<open>
  C4, evaluated on the code: for a document that is absent (\<^verbatim>\<open>None\<close> after a missing
  file) extract returns the empty list and process returns the empty list, but
  \<^verbatim>\<open>save_variations\<close> then subscripts \<^verbatim>\<open>None\<close>: the run ends with \<^verbatim>\<open>TypeError\<close> and nothing
  is written. The empty dict, also falsy, ends the run with \<^verbatim>\<open>KeyError\<close>.
\<close>

theorem absent_document_run_raises:
  "extract_cells (load_notebook FileNotFoundError) = Inr (PList [])
   \<and> process_cells_with_function_call remote s (PList []) = (Inr [], s)
   \<and> main_with_function_call remote s FileNotFoundError fs_ok
       = (\<lparr>notebook_after = PNone, written = None, raised = Some TypeError\<rparr>, s)
   \<and> main_with_function_call remote s (Loaded (PDict [])) fs_ok
       = (\<lparr>notebook_after = PDict [], written = None, raised = Some KeyError\<rparr>, s)"
  by (simp add: extract_cells_def process_cells_with_function_call_def
        main_with_function_call_def save_variations_def)

section \<open>Extract, process, rebuild\<close>



text \<open>
  C6: for a block whose role is not recognized, process records the joined source as
  original and as variation and does not call the service (its state is untouched, for
  every service), also inside a run over the whole sequence; and after rebuild, with
  any variations, the block is the very block it was.
\<close>

theorem unrecognized_block_passes_through:
  assumes c: "getitem nb cells_key = Inr (PList cells)" and i: "i < length cells"
    and r: "getitem (cells ! i) cell_type_key = Inr r" and n: "\<not> recognized r"
    and src: "cell_source (cells ! i) = Inr src"
  shows "process_cell remote s (cells ! i)
           = (Inr \<lparr>role = r, original = src, variation = src\<rparr>, s)
         \<and> (\<forall>vs s'. process_cells_with_function_call remote s (PList cells) = (Inr vs, s')
               \<longrightarrow> i < length vs \<and> vs ! i = \<lparr>role = r, original = src, variation = src\<rparr>)
         \<and> (\<exists>cells'. getitem (notebook_after (save_variations variations ok nb)) cells_key
                        = Inr (PList cells')
               \<and> length cells' = length cells \<and> cells' ! i = cells ! i)"
proof (intro conjI allI impI)
  show "process_cell remote s (cells ! i)
           = (Inr \<lparr>role = r, original = src, variation = src\<rparr>, s)"
    by (rule process_cell_passthrough [OF r src n])
next
  fix vs s'
  assume "process_cells_with_function_call remote s (PList cells) = (Inr vs, s')"
  then have "process_loop remote [] s cells = (Inr vs, s')"
    by (simp add: process_cells_with_function_call_def)
  then have a: "list_all2 (\<lambda>cell v. \<exists>s1 s2. process_cell remote s1 cell = (Inr v, s2)) cells vs"
    by (rule process_loop_cells)
  then show "i < length vs" using i by (simp add: list_all2_lengthD)
  from a i obtain s1 s2 where "process_cell remote s1 (cells ! i) = (Inr (vs ! i), s2)"
    by (auto simp: list_all2_conv_all_nth)
  with process_cell_passthrough [OF r src n, of remote s1]
  show "vs ! i = \<lparr>role = r, original = src, variation = src\<rparr>" by simp
next
  let ?cells' = "fst (rebuild_loop variations 0 cells)"
  have f: "list_all2 (\<lambda>c c'. without_field source_key c' = without_field source_key c
                               \<and> (\<not> recognized_cell c \<longrightarrow> c' = c)) cells ?cells'"
    by (rule rebuild_loop_frame)
  from r n have "\<not> recognized_cell (cells ! i)" by (simp add: recognized_cell_def)
  with f i have "?cells' ! i = cells ! i"
    by (auto simp: list_all2_conv_all_nth)
  with save_variations_cells_after [OF c, of variations ok] rebuild_loop_length [of variations 0 cells]
  show "\<exists>cells'. getitem (notebook_after (save_variations variations ok nb)) cells_key
                        = Inr (PList cells')
               \<and> length cells' = length cells \<and> cells' ! i = cells ! i"
    by blast
qed

theorem unrecognized_block_passes_through_witness:
  "getitem (mk_notebook [mk_cell ''code'' [''x''], mk_cell ''raw'' [''y'', ''z'']]) cells_key
     = Inr (PList [mk_cell ''code'' [''x''], mk_cell ''raw'' [''y'', ''z'']])
   \<and> (1::nat) < length [mk_cell ''code'' [''x''], mk_cell ''raw'' [''y'', ''z'']]
   \<and> getitem ([mk_cell ''code'' [''x''], mk_cell ''raw'' [''y'', ''z'']] ! 1) cell_type_key
       = Inr (PStr (py ''raw''))
   \<and> \<not> recognized (PStr (py ''raw''))
   \<and> cell_source ([mk_cell ''code'' [''x''], mk_cell ''raw'' [''y'', ''z'']] ! 1) = Inr (py ''yz'')
   \<and> process_cell failing_second 0 ([mk_cell ''code'' [''x''], mk_cell ''raw'' [''y'', ''z'']] ! 1)
       = (Inr \<lparr>role = PStr (py ''raw''), original = py ''yz'', variation = py ''yz''\<rparr>, 0)
   \<and> (\<exists>cells'. getitem (notebook_after (save_variations [mk_varied ''code'' ''x'' ''b''] True
                   (mk_notebook [mk_cell ''code'' [''x''], mk_cell ''raw'' [''y'', ''z'']])))
                   cells_key = Inr (PList cells')
         \<and> cells' ! 1 = mk_cell ''raw'' [''y'', ''z''])"
proof -
  let ?cells = "[mk_cell ''code'' [''x''], mk_cell ''raw'' [''y'', ''z'']]"
  have h1: "getitem (mk_notebook ?cells) cells_key = Inr (PList ?cells)"
    by (simp add: mk_notebook_def)
  have h2: "(1::nat) < length ?cells" by simp
  have h3: "getitem (?cells ! 1) cell_type_key = Inr (PStr (py ''raw''))"
    by (simp add: mk_cell_def)
  have h4: "\<not> recognized (PStr (py ''raw''))"
    by (simp add: recognized_def recognized_roles_def py_def)
  have h5: "cell_source (?cells ! 1) = Inr (py ''yz'')"
    by (simp add: mk_cell_def cell_source_def join_empty_def keys_distinct py_def)
  from unrecognized_block_passes_through [OF h1 h2 h3 h4 h5,
      of failing_second 0 "[mk_varied ''code'' ''x'' ''b'']" True]
    h1 h2 h3 h4 h5
  show ?thesis by auto
qed

text \<open>
  C7: for a block of a recognized role, when rebuild completes, the block's \<^verbatim>\<open>source\<close>
  is the list of the lines of the variation \<open>T\<close> recorded for it: the fragments
  concatenate to \<open>T\<close>, each fragment is one line with its line break at the end if it
  has one, and every fragment but the last ends with a line break.
\<close>

theorem recognized_block_rebuilt_from_lines:
  assumes c: "getitem nb cells_key = Inr (PList cells)" and i: "i < length cells"
    and r: "recognized_cell (cells ! i)"
    and ok: "raised (save_variations variations ok nb) = None"
  shows "i < length variations
         \<and> (\<exists>cells'. getitem (notebook_after (save_variations variations ok nb)) cells_key
                        = Inr (PList cells')
               \<and> getitem (cells' ! i) source_key
                   = Inr (PList (map PStr (splitlines_keepends (variation (variations ! i)))))
               \<and> cell_source (cells' ! i) = Inr (variation (variations ! i)))
         \<and> concat (splitlines_keepends (variation (variations ! i))) = variation (variations ! i)
         \<and> list_all is_line (splitlines_keepends (variation (variations ! i)))
         \<and> (\<forall>j. Suc j < length (splitlines_keepends (variation (variations ! i)))
               \<longrightarrow> is_linebreak (last (splitlines_keepends (variation (variations ! i)) ! j)))"
proof -
  let ?t = "variation (variations ! i)"
  let ?cells' = "fst (rebuild_loop variations 0 cells)"
  from ok c have "snd (rebuild_loop variations 0 cells) = None"
    by (simp add: save_variations_list)
  from rebuild_loop_recognized [OF this i r]
  have lt: "i < length variations"
    and ci: "?cells' ! i = setitem (cells ! i) source_key (PList (map PStr (splitlines_keepends ?t)))"
    by simp_all
  from r obtain ct where ct: "getitem (cells ! i) cell_type_key = Inr ct"
    by (auto simp: recognized_cell_def split: sum.splits)
  have s1: "getitem (?cells' ! i) source_key = Inr (PList (map PStr (splitlines_keepends ?t)))"
    unfolding ci by (rule getitem_setitem_same [OF ct])
  have s2: "cell_source (?cells' ! i) = Inr ?t"
    unfolding ci using cell_source_setitem [OF ct, of "splitlines_keepends ?t"]
    by (simp add: splitlines_keepends_lines(1))
  from save_variations_cells_after [OF c, of variations ok] s1 s2
  have ex: "\<exists>cells'. getitem (notebook_after (save_variations variations ok nb)) cells_key
                        = Inr (PList cells')
               \<and> getitem (cells' ! i) source_key
                   = Inr (PList (map PStr (splitlines_keepends ?t)))
               \<and> cell_source (cells' ! i) = Inr ?t"
    by blast
  from lt ex splitlines_keepends_lines(1) [of ?t] splitlines_keepends_lines(2) [of ?t]
    splitlines_keepends_lines(3) [of _ ?t]
  show ?thesis by blast
qed

theorem recognized_block_rebuilt_from_lines_witness:
  "getitem (mk_notebook [mk_cell ''code'' [''x'']]) cells_key = Inr (PList [mk_cell ''code'' [''x'']])
   \<and> (0::nat) < length [mk_cell ''code'' [''x'']]
   \<and> recognized_cell ([mk_cell ''code'' [''x'']] ! 0)
   \<and> raised (save_variations
         [\<lparr>role = PStr (py ''code''), original = py ''x'', variation = py ''a'' @ [10] @ py ''b''\<rparr>]
         True (mk_notebook [mk_cell ''code'' [''x'']])) = None
   \<and> splitlines_keepends (py ''a'' @ [10] @ py ''b'') = [py ''a'' @ [10], py ''b'']
   \<and> (\<exists>cells'. getitem (notebook_after (save_variations
         [\<lparr>role = PStr (py ''code''), original = py ''x'', variation = py ''a'' @ [10] @ py ''b''\<rparr>]
         True (mk_notebook [mk_cell ''code'' [''x'']]))) cells_key = Inr (PList cells')
         \<and> getitem (cells' ! 0) source_key = Inr (PList [PStr (py ''a'' @ [10]), PStr (py ''b'')])
         \<and> cell_source (cells' ! 0) = Inr (py ''a'' @ [10] @ py ''b''))"
proof -
  let ?cells = "[mk_cell ''code'' [''x'']]"
  let ?vs = "[\<lparr>role = PStr (py ''code''), original = py ''x'',
               variation = py ''a'' @ [10] @ py ''b''\<rparr>]"
  have h1: "getitem (mk_notebook ?cells) cells_key = Inr (PList ?cells)"
    by (simp add: mk_notebook_def)
  have h2: "(0::nat) < length ?cells" by simp
  have h3: "recognized_cell (?cells ! 0)"
    by (simp add: recognized_cell_def mk_cell_def recognized_def recognized_roles_def py_def)
  have h4: "raised (save_variations ?vs True (mk_notebook ?cells)) = None"
    by (simp add: save_variations_def Let_def recognized_def recognized_roles_def
          mk_notebook_def mk_cell_def py_def)
  have sp: "splitlines_keepends (py ''a'' @ [10] @ py ''b'') = [py ''a'' @ [10], py ''b'']"
    by (simp add: splitlines_keepends_def is_linebreak_def py_def)
  from recognized_block_rebuilt_from_lines [OF h1 h2 h3 h4] h1 h2 h3 h4 sp
  show ?thesis by simp
qed

section \<open>The first completion\<close>

text \<open>
  C8, evaluated on the code: for every call that returns a completion, with however
  many choices, generate returns the message it was given; the text of the first
  choice is not used.
\<close>

theorem generate_returns_message_for_every_completion:
  assumes "remote s (build_prompt message r lang ctx ps doc aud len) = (Returns c, s')"
  shows "generate_variation_with_function_call remote s message r lang ctx ps doc aud len
           = (Inr message, s')"
  using assms by (simp add: generate_result)

theorem generate_returns_message_for_every_completion_witness:
  "failing_second 0 (build_prompt (py ''print(1)'') (py ''code'') (py ''python'')
        (py ''This is part of a Jupyter notebook.'') True True (py ''general'') (Some 150))
     = (Returns (Completion [Choice (py ''print(2)  '')]), 1)
   \<and> generate_variation_with_function_call failing_second 0 (py ''print(1)'') (py ''code'')
        (py ''python'') (py ''This is part of a Jupyter notebook.'') True True (py ''general'')
        (Some 150)
       = (Inr (py ''print(1)''), 1)
   \<and> strip (text_of (Choice (py ''print(2)  ''))) = py ''print(2)''
   \<and> py ''print(1)'' \<noteq> py ''print(2)''"
proof -
  have h: "failing_second 0 (build_prompt (py ''print(1)'') (py ''code'') (py ''python'')
        (py ''This is part of a Jupyter notebook.'') True True (py ''general'') (Some 150))
     = (Returns (Completion [Choice (py ''print(2)  '')]), 1)"
    by (simp add: failing_second_def)
  have st: "strip (text_of (Choice (py ''print(2)  ''))) = py ''print(2)''"
    by (simp add: strip_def isspace_def py_def)
  have ne: "py ''print(1)'' \<noteq> py ''print(2)''"
    by (simp add: py_def)
  from generate_returns_message_for_every_completion
         [of failing_second 0 "py ''print(1)''" "py ''code''" "py ''python''"
             "py ''This is part of a Jupyter notebook.''" True True "py ''general''" "Some 150",
          OF h] h st ne
  show ?thesis by simp
qed

end
